theory Spec2Isabelle
  imports Main "HOL-Library.Multiset"
begin

section \<open>Graham scan: the data model and the functions of src/src/index.ts\<close>

text \<open>
  Coordinates are the integer grid coordinates the click handler produces
  (\<^verbatim>\<open>Math.floor\<close> of a canvas position). This section gives the functions of the
  program on exact integers: the fields of \<^verbatim>\<open>Coord2D\<close> are of type \<^typ>\<open>int\<close> and
  \<^verbatim>\<open>Math.sign\<close> is \<^const>\<open>sgn\<close>. A later section gives the same functions in the double
  arithmetic of the program; the two agree on all points whose coordinates have absolute
  value at most \<open>2 ^ 25\<close>, which covers the grid of the program.
\<close>

record Coord2D =
  x :: int
  y :: int

text \<open>\<^verbatim>\<open>Coord2D.same\<close>: exact equality of both coordinates.\<close>

definition same :: "Coord2D \<Rightarrow> Coord2D \<Rightarrow> bool" where
  "same this other = (x this = x other \<and> y this = y other)"

text \<open>
  Reading a field of \<^verbatim>\<open>undefined\<close> and \<^verbatim>\<open>reduce\<close> of an empty array without an
  initial value both raise a \<^verbatim>\<open>TypeError\<close>.
\<close>

datatype error = TypeError

text \<open>
  \<^verbatim>\<open>arr[i]\<close>: an index outside the array yields \<^verbatim>\<open>undefined\<close>, modelled as
  \<^const>\<open>None\<close>; the callers turn its use into the \<^verbatim>\<open>TypeError\<close> the program would raise.
\<close>

definition at_index :: "'a list \<Rightarrow> int \<Rightarrow> 'a option" where
  "at_index arr i = (if 0 \<le> i \<and> i < int (length arr) then Some (arr ! nat i) else None)"

text \<open>\<^verbatim>\<open>Array.prototype.findIndex\<close>: the first index whose element satisfies the
  predicate, \<open>-1\<close> when there is none.\<close>

fun findIndexFrom :: "('a \<Rightarrow> bool) \<Rightarrow> int \<Rightarrow> 'a list \<Rightarrow> int" where
  "findIndexFrom P i [] = - 1"
| "findIndexFrom P i (r # rs) = (if P r then i else findIndexFrom P (i + 1) rs)"

definition findIndex :: "('a \<Rightarrow> bool) \<Rightarrow> 'a list \<Rightarrow> int" where
  "findIndex P arr = findIndexFrom P 0 arr"

text \<open>\<^verbatim>\<open>Array.prototype.reduce\<close> without an initial value.\<close>

definition reduce :: "('a \<Rightarrow> 'a \<Rightarrow> 'a) \<Rightarrow> 'a list \<Rightarrow> error + 'a" where
  "reduce f arr = (case arr of [] \<Rightarrow> Inl TypeError | a # as \<Rightarrow> Inr (foldl f a as))"

text \<open>
  \<^verbatim>\<open>Array.prototype.sort\<close> with a comparison function is a stable sort: an element
  moves in front of another one only if the comparison function says it is smaller.
  For a consistent comparison function every stable sort returns the same array; the
  model is insertion sort.
\<close>

fun insert_cmp :: "('a \<Rightarrow> 'a \<Rightarrow> int) \<Rightarrow> 'a \<Rightarrow> 'a list \<Rightarrow> 'a list" where
  "insert_cmp cmp a [] = [a]"
| "insert_cmp cmp a (b # bs) =
     (if cmp a b \<le> 0 then a # b # bs else b # insert_cmp cmp a bs)"

fun sort_cmp :: "('a \<Rightarrow> 'a \<Rightarrow> int) \<Rightarrow> 'a list \<Rightarrow> 'a list" where
  "sort_cmp cmp [] = []"
| "sort_cmp cmp (a # as) = insert_cmp cmp a (sort_cmp cmp as)"

subsection \<open>compareAngle (lines 116--133)\<close>

definition REGIONS :: "(int \<times> int) list" where
  "REGIONS = [(0, 0), (1, 0), (1, 1), (0, 1), (- 1, 1), (- 1, 0), (- 1, - 1), (0, - 1), (1, - 1)]"

text \<open>The index expression of lines 125 and 126, for a difference vector \<open>(vx, vy)\<close>.\<close>

definition regionIdx :: "int \<Rightarrow> int \<Rightarrow> int" where
  "regionIdx vx vy = findIndex (\<lambda>region. fst region = sgn vx \<and> snd region = sgn vy) REGIONS"

definition compareAngle :: "Coord2D \<Rightarrow> Coord2D \<Rightarrow> Coord2D \<Rightarrow> Coord2D \<Rightarrow> int" where
  "compareAngle base1 coord1 base2 coord2 =
     (let x1 = x coord1 - x base1;
          y1 = y coord1 - y base1;
          x2 = x coord2 - x base2;
          y2 = y coord2 - y base2;
          regionIdx1 = regionIdx x1 y1;
          regionIdx2 = regionIdx x2 y2
      in if regionIdx1 \<noteq> regionIdx2 then sgn (regionIdx1 - regionIdx2)
         else sgn (y1 * x2 - y2 * x1))"

subsection \<open>findConvexHull (lines 140--174)\<close>

text \<open>The callback of the \<^verbatim>\<open>reduce\<close> call, lines 145--151.\<close>

definition lowerLeft :: "Coord2D \<Rightarrow> Coord2D \<Rightarrow> Coord2D" where
  "lowerLeft provBaseCoord candCoord =
     (if y candCoord < y provBaseCoord
         \<or> (y candCoord = y provBaseCoord \<and> x candCoord < x provBaseCoord)
      then candCoord else provBaseCoord)"

definition baseCoordOf :: "Coord2D list \<Rightarrow> error + Coord2D" where
  "baseCoordOf coords = reduce lowerLeft coords"

text \<open>Lines 153--154: the copy of the input, sorted by angle around the base point.\<close>

definition sortedCoordsOf :: "Coord2D \<Rightarrow> Coord2D list \<Rightarrow> Coord2D list" where
  "sortedCoordsOf baseCoord coords =
     sort_cmp (\<lambda>coord1 coord2. compareAngle baseCoord coord1 baseCoord coord2) coords"

text \<open>
  The \<^verbatim>\<open>while\<close> loop of lines 162--168. The stack \<open>convexHull\<close> is the array of the
  program: its top is its last element, \<^verbatim>\<open>pop\<close> is \<^const>\<open>butlast\<close>.
\<close>

function whileLoop :: "Coord2D list \<Rightarrow> Coord2D \<Rightarrow> error + Coord2D list" where
  "whileLoop convexHull coord =
     (if length convexHull \<ge> 2 then
        (case at_index convexHull (int (length convexHull) - 1) of
           None \<Rightarrow> Inl TypeError
         | Some topCoord \<Rightarrow>
            (case at_index convexHull (int (length convexHull) - 2) of
               None \<Rightarrow> Inl TypeError
             | Some secondCoord \<Rightarrow>
                 if compareAngle topCoord coord secondCoord coord \<le> 0
                 then whileLoop (butlast convexHull) coord
                 else Inr convexHull))
      else Inr convexHull)"
  by pat_completeness auto
termination
  by (relation "measure (\<lambda>(convexHull, coord). length convexHull)") auto

declare whileLoop.simps [simp del]

text \<open>The \<^verbatim>\<open>for\<close> loop of lines 157--171 over the sorted array.\<close>

fun forLoop :: "Coord2D list \<Rightarrow> Coord2D list \<Rightarrow> error + Coord2D list" where
  "forLoop convexHull [] = Inr convexHull"
| "forLoop convexHull (coord # rest) =
     (case at_index convexHull (int (length convexHull) - 1) of
        None \<Rightarrow> Inl TypeError
      | Some topCoord \<Rightarrow>
          if same coord topCoord then forLoop convexHull rest
          else (case whileLoop convexHull coord of
                  Inl e \<Rightarrow> Inl e
                | Inr popped \<Rightarrow> forLoop (popped @ [coord]) rest))"

definition findConvexHull :: "Coord2D list \<Rightarrow> error + Coord2D list" where
  "findConvexHull coords =
     (if length coords = 0 then Inr []
      else (case baseCoordOf coords of
              Inl e \<Rightarrow> Inl e
            | Inr baseCoord \<Rightarrow> forLoop [baseCoord] (sortedCoordsOf baseCoord coords)))"

text \<open>A point written by its two coordinates.\<close>

abbreviation pt :: "int \<Rightarrow> int \<Rightarrow> Coord2D" where
  "pt a b \<equiv> \<lparr>x = a, y = b\<rparr>"

section \<open>The scan as the specification words it\<close>




text \<open>
  The geometry the specification's hull invariant speaks of: \<open>spec_cross a b c\<close> is the
  cross product of the edges \<open>a \<rightarrow> b\<close> and \<open>a \<rightarrow> c\<close> (zero exactly when the three points
  are collinear), and \<open>spec_strictly_between a b c\<close> says that \<open>c\<close> lies on the segment
  from \<open>a\<close> to \<open>b\<close> and is neither endpoint. Such a point is no vertex of the convex
  hull of any set that contains \<open>a\<close> and \<open>b\<close>.
\<close>

definition spec_cross :: "Coord2D \<Rightarrow> Coord2D \<Rightarrow> Coord2D \<Rightarrow> int" where
  "spec_cross a b c = (x b - x a) * (y c - y a) - (y b - y a) * (x c - x a)"

definition spec_strictly_between :: "Coord2D \<Rightarrow> Coord2D \<Rightarrow> Coord2D \<Rightarrow> bool" where
  "spec_strictly_between a b c =
     (spec_cross a b c = 0 \<and> 0 < (x c - x a) * (x b - x c) + (y c - y a) * (y b - y c))"

section \<open>The functions in the arithmetic of the program\<close>

text \<open>
  The coordinates of the program are \<^verbatim>\<open>number\<close>s, that is IEEE 754 doubles, and lines
  119--132 subtract and multiply them in double arithmetic. All values that arise from
  integer coordinates are integers, infinities or \<^verbatim>\<open>NaN\<close>; a coordinate itself is a
  double with an integer value. The two zeros of the doubles are not told apart: they
  compare equal, and \<^verbatim>\<open>Math.sign\<close> maps each to itself.
\<close>

datatype number = Finite int | PosInfinity | NegInfinity | NaN

text \<open>The number of binary digits of a positive integer.\<close>

function bitLength :: "int \<Rightarrow> nat" where
  "bitLength n = (if n \<le> 0 then 0 else Suc (bitLength (n div 2)))"
  by pat_completeness auto
termination
  by (relation "measure nat") auto

declare bitLength.simps [simp del]

text \<open>
  Rounding of a nonnegative integer to the nearest double, ties to the even significand:
  integers up to \<open>2 ^ 53\<close> are doubles; a larger one keeps its 53 leading binary digits
  and is rounded on the \<open>e\<close> digits below them; a result of \<open>2 ^ 1024\<close> or more overflows
  (\<^const>\<open>None\<close>).
\<close>

definition roundMagnitude :: "int \<Rightarrow> int option" where
  "roundMagnitude n =
     (if n \<le> 2 ^ 53 then Some n
      else let e = bitLength n - 53;
               q = n div 2 ^ e;
               r = n mod 2 ^ e;
               m = (if 2 ^ e < 2 * r \<or> (2 * r = 2 ^ e \<and> odd q) then q + 1 else q) * 2 ^ e
           in if 2 ^ 1024 \<le> m then None else Some m)"

definition roundToDouble :: "int \<Rightarrow> number" where
  "roundToDouble v =
     (if v < 0 then (case roundMagnitude (- v) of None \<Rightarrow> NegInfinity | Some m \<Rightarrow> Finite (- m))
      else (case roundMagnitude v of None \<Rightarrow> PosInfinity | Some m \<Rightarrow> Finite m))"

text \<open>\<^verbatim>\<open>Math.sign\<close>, the operators \<^verbatim>\<open>-\<close> and \<^verbatim>\<open>*\<close>, the comparisons \<^verbatim>\<open>===\<close> and
  \<^verbatim>\<open><= 0\<close>, and unary minus on these values.\<close>

fun num_sign :: "number \<Rightarrow> number" where
  "num_sign (Finite v) = Finite (sgn v)"
| "num_sign PosInfinity = Finite 1"
| "num_sign NegInfinity = Finite (- 1)"
| "num_sign NaN = NaN"

fun num_sub :: "number \<Rightarrow> number \<Rightarrow> number" where
  "num_sub (Finite a) (Finite b) = roundToDouble (a - b)"
| "num_sub NaN b = NaN"
| "num_sub a NaN = NaN"
| "num_sub PosInfinity PosInfinity = NaN"
| "num_sub NegInfinity NegInfinity = NaN"
| "num_sub PosInfinity b = PosInfinity"
| "num_sub NegInfinity b = NegInfinity"
| "num_sub (Finite a) PosInfinity = NegInfinity"
| "num_sub (Finite a) NegInfinity = PosInfinity"

fun num_mul :: "number \<Rightarrow> number \<Rightarrow> number" where
  "num_mul (Finite a) (Finite b) = roundToDouble (a * b)"
| "num_mul NaN b = NaN"
| "num_mul a NaN = NaN"
| "num_mul a b =
     (case (num_sign a, num_sign b) of
        (Finite s, Finite t) \<Rightarrow>
          if s * t = 0 then NaN else if 0 < s * t then PosInfinity else NegInfinity
      | _ \<Rightarrow> NaN)"

fun num_strict_eq :: "number \<Rightarrow> number \<Rightarrow> bool" where
  "num_strict_eq NaN b = False"
| "num_strict_eq a NaN = False"
| "num_strict_eq a b = (a = b)"


fun num_neg :: "number \<Rightarrow> number" where
  "num_neg (Finite v) = Finite (- v)"
| "num_neg PosInfinity = NegInfinity"
| "num_neg NegInfinity = PosInfinity"
| "num_neg NaN = NaN"

text \<open>\<^verbatim>\<open>compareAngle\<close> (lines 116--133) in this arithmetic.\<close>

definition regionIdx_double :: "number \<Rightarrow> number \<Rightarrow> int" where
  "regionIdx_double vx vy =
     findIndex (\<lambda>region. num_strict_eq (Finite (fst region)) (num_sign vx)
                        \<and> num_strict_eq (Finite (snd region)) (num_sign vy)) REGIONS"

definition compareAngle_double :: "Coord2D \<Rightarrow> Coord2D \<Rightarrow> Coord2D \<Rightarrow> Coord2D \<Rightarrow> number" where
  "compareAngle_double base1 coord1 base2 coord2 =
     (let x1 = num_sub (Finite (x coord1)) (Finite (x base1));
          y1 = num_sub (Finite (y coord1)) (Finite (y base1));
          x2 = num_sub (Finite (x coord2)) (Finite (x base2));
          y2 = num_sub (Finite (y coord2)) (Finite (y base2));
          regionIdx1 = regionIdx_double x1 y1;
          regionIdx2 = regionIdx_double x2 y2
      in if regionIdx1 \<noteq> regionIdx2 then Finite (sgn (regionIdx1 - regionIdx2))
         else num_sign (num_sub (num_mul y1 x2) (num_mul y2 x1)))"







text \<open>
  The points on which the double arithmetic of \<^verbatim>\<open>compareAngle\<close> is exact: integer
  coordinates of absolute value at most \<open>2 ^ 25\<close>. Differences are then at most \<open>2 ^ 26\<close>,
  products at most \<open>2 ^ 52\<close> and their difference at most \<open>2 ^ 53\<close>.
\<close>

definition exactRange :: "Coord2D \<Rightarrow> bool" where
  "exactRange c = (\<bar>x c\<bar> \<le> 2 ^ 25 \<and> \<bar>y c\<bar> \<le> 2 ^ 25)"

section \<open>The angular comparator\<close>

lemma regionIdx_code:
  "regionIdx vx vy =
     (if vx = 0 \<and> vy = 0 then 0
      else if 0 < vx \<and> vy = 0 then 1
      else if 0 < vx \<and> 0 < vy then 2
      else if vx = 0 \<and> 0 < vy then 3
      else if vx < 0 \<and> 0 < vy then 4
      else if vx < 0 \<and> vy = 0 then 5
      else if vx < 0 \<and> vy < 0 then 6
      else if vx = 0 \<and> vy < 0 then 7
      else 8)"
  by (simp add: regionIdx_def findIndex_def REGIONS_def sgn_if)

lemma regionIdx_range: "0 \<le> regionIdx vx vy \<and> regionIdx vx vy < 9"
  by (simp add: regionIdx_code)

lemma regionIdx_nth: "REGIONS ! nat (regionIdx vx vy) = (sgn vx, sgn vy)"
  by (simp add: regionIdx_code REGIONS_def sgn_if)

lemma regionIdx_eq_iff:
  "regionIdx a b = regionIdx c d \<longleftrightarrow> sgn a = sgn c \<and> sgn b = sgn d"
  by (simp add: regionIdx_code sgn_if)

lemma regionIdx_zero: "regionIdx 0 0 = 0"
  by (simp add: regionIdx_code)

lemma regionIdx_pos: "vx \<noteq> 0 \<or> vy \<noteq> 0 \<Longrightarrow> 0 < regionIdx vx vy"
  by (auto simp add: regionIdx_code)

lemma compareAngle_alt:
  "compareAngle base1 coord1 base2 coord2 =
     (if regionIdx (x coord1 - x base1) (y coord1 - y base1)
           \<noteq> regionIdx (x coord2 - x base2) (y coord2 - y base2)
      then sgn (regionIdx (x coord1 - x base1) (y coord1 - y base1)
                 - regionIdx (x coord2 - x base2) (y coord2 - y base2))
      else sgn ((y coord1 - y base1) * (x coord2 - x base2)
                 - (y coord2 - y base2) * (x coord1 - x base1)))"
  by (simp add: compareAngle_def Let_def)

lemma sgn_diff_flip: "sgn (a - b) = - sgn (b - a)" for a b :: int
  by (simp add: sgn_if)


lemma compareAngle_values: "compareAngle base1 coord1 base2 coord2 \<in> {- 1, 0, 1}"
  by (simp add: compareAngle_alt sgn_if)





text \<open>
  Claim C3. \<^verbatim>\<open>compareAngle\<close> classifies each difference vector (coord minus base)
  into one of the nine sign-pair regions of \<open>REGIONS\<close>, in the order
  \<open>(0,0), (1,0), (1,1), (0,1), (-1,1), (-1,0), (-1,-1), (0,-1), (1,-1)\<close>: the index it
  computes lies in \<open>0..8\<close> and the entry of \<open>REGIONS\<close> at that index is the sign pair of
  the vector. When the two vectors have different region indices, the result is the sign
  of the first index minus the second. A zero-length vector (coord equal to base) has
  index \<open>0\<close>, so it compares before every nonzero vector.
\<close>

theorem compareAngle_regions:
  "REGIONS = [(0, 0), (1, 0), (1, 1), (0, 1), (- 1, 1), (- 1, 0), (- 1, - 1), (0, - 1), (1, - 1)]
   \<and> 0 \<le> regionIdx (x coord1 - x base1) (y coord1 - y base1)
   \<and> regionIdx (x coord1 - x base1) (y coord1 - y base1) < 9
   \<and> REGIONS ! nat (regionIdx (x coord1 - x base1) (y coord1 - y base1))
        = (sgn (x coord1 - x base1), sgn (y coord1 - y base1))
   \<and> (regionIdx (x coord1 - x base1) (y coord1 - y base1)
          \<noteq> regionIdx (x coord2 - x base2) (y coord2 - y base2)
        \<longrightarrow> compareAngle base1 coord1 base2 coord2
            = sgn (regionIdx (x coord1 - x base1) (y coord1 - y base1)
                   - regionIdx (x coord2 - x base2) (y coord2 - y base2)))
   \<and> (same coord1 base1 \<longrightarrow> regionIdx (x coord1 - x base1) (y coord1 - y base1) = 0)
   \<and> (same coord1 base1 \<and> \<not> same coord2 base2
        \<longrightarrow> compareAngle base1 coord1 base2 coord2 = - 1
          \<and> compareAngle base2 coord2 base1 coord1 = 1)"
proof -
  have first: "compareAngle base1 coord1 base2 coord2 = - 1"
    if "same coord1 base1" "\<not> same coord2 base2"
    using that regionIdx_pos [of "x coord2 - x base2" "y coord2 - y base2"]
    by (auto simp add: compareAngle_alt same_def regionIdx_zero)
  have second: "compareAngle base2 coord2 base1 coord1 = 1"
    if "same coord1 base1" "\<not> same coord2 base2"
    using that regionIdx_pos [of "x coord2 - x base2" "y coord2 - y base2"]
    by (auto simp add: compareAngle_alt same_def regionIdx_zero)
  show ?thesis
    using first second
    by (simp add: REGIONS_def [symmetric] regionIdx_range regionIdx_nth compareAngle_alt
          regionIdx_zero same_def)
qed

theorem compareAngle_regions_witness:
  "regionIdx (x (pt 3 4) - x (pt 3 4)) (y (pt 3 4) - y (pt 3 4))
     \<noteq> regionIdx (x (pt 2 7) - x (pt 3 4)) (y (pt 2 7) - y (pt 3 4))
   \<and> same (pt 3 4) (pt 3 4) \<and> \<not> same (pt 2 7) (pt 3 4)
   \<and> regionIdx (x (pt 2 7) - x (pt 3 4)) (y (pt 2 7) - y (pt 3 4)) = 4
   \<and> compareAngle (pt 3 4) (pt 3 4) (pt 3 4) (pt 2 7) = - 1
   \<and> compareAngle (pt 3 4) (pt 2 7) (pt 3 4) (pt 3 4) = 1"
  using compareAngle_regions [where ?base1.0 = "pt 3 4" and ?coord1.0 = "pt 3 4"
      and ?base2.0 = "pt 3 4" and ?coord2.0 = "pt 2 7"]
  by (simp add: same_def regionIdx_code)

section \<open>Sorting by angle\<close>

lemma mset_insert_cmp: "mset (insert_cmp cmp a bs) = add_mset a (mset bs)"
  by (induction bs) simp_all

lemma mset_sort_cmp: "mset (sort_cmp cmp as) = mset as"
  by (induction as) (simp_all add: mset_insert_cmp)

lemma set_sort_cmp: "set (sort_cmp cmp as) = set as"
  using mset_sort_cmp [of cmp as] by (metis set_mset_mset)




section \<open>The scan loops\<close>

lemma at_index_last:
  "convexHull \<noteq> [] \<Longrightarrow> at_index convexHull (int (length convexHull) - 1) = Some (last convexHull)"
  by (cases convexHull rule: rev_cases) (simp_all add: at_index_def)

lemma at_index_second:
  "at_index (below @ [secondCoord, topCoord]) (int (length (below @ [secondCoord, topCoord])) - 2)
     = Some secondCoord"
  by (simp add: at_index_def nth_append)

lemma whileLoop_short: "length convexHull < 2 \<Longrightarrow> whileLoop convexHull coord = Inr convexHull"
  by (simp add: whileLoop.simps)

lemma whileLoop_snoc2:
  "whileLoop (below @ [secondCoord, topCoord]) coord =
     (if compareAngle topCoord coord secondCoord coord \<le> 0
      then whileLoop (below @ [secondCoord]) coord
      else Inr (below @ [secondCoord, topCoord]))"
proof -
  have "at_index (below @ [secondCoord, topCoord])
          (int (length (below @ [secondCoord, topCoord])) - 1) = Some topCoord"
    using at_index_last [of "below @ [secondCoord, topCoord]"] by simp
  moreover have "butlast (below @ [secondCoord, topCoord]) = below @ [secondCoord]"
    by (simp add: butlast_append)
  ultimately show ?thesis
    using at_index_second [of below secondCoord topCoord]
    by (subst whileLoop.simps) simp
qed

lemma whileLoop_take:
  "\<exists>k. whileLoop convexHull coord = Inr (take k convexHull)
       \<and> k \<le> length convexHull \<and> (convexHull \<noteq> [] \<longrightarrow> 0 < k)"
proof (induction convexHull rule: rev_induct)
  case Nil
  show ?case by (simp add: whileLoop_short)
next
  case (snoc topCoord rest)
  show ?case
  proof (cases rest rule: rev_cases)
    case Nil
    then have "whileLoop (rest @ [topCoord]) coord = Inr (take 1 (rest @ [topCoord]))"
      by (simp add: whileLoop_short)
    then show ?thesis using Nil by (intro exI [of _ 1]) simp
  next
    case (snoc below secondCoord)
    show ?thesis
    proof (cases "compareAngle topCoord coord secondCoord coord \<le> 0")
      case True
      from snoc.IH obtain k where k: "whileLoop rest coord = Inr (take k rest)"
        "k \<le> length rest" "rest \<noteq> [] \<longrightarrow> 0 < k"
        by blast
      have "whileLoop (rest @ [topCoord]) coord = whileLoop rest coord"
        using True snoc whileLoop_snoc2 [of below secondCoord topCoord coord] by simp
      moreover have "take k (rest @ [topCoord]) = take k rest"
        using k(2) by simp
      moreover have "0 < k"
        using k(3) snoc by simp
      ultimately show ?thesis
        using k by (intro exI [of _ k]) simp
    next
      case False
      have "whileLoop (rest @ [topCoord]) coord = Inr (rest @ [topCoord])"
        using False snoc whileLoop_snoc2 [of below secondCoord topCoord coord] by simp
      then show ?thesis
        by (intro exI [of _ "length (rest @ [topCoord])"]) simp
    qed
  qed
qed

lemma whileLoop_result:
  assumes "convexHull \<noteq> []"
  obtains popped where "whileLoop convexHull coord = Inr popped" "popped \<noteq> []"
    "hd popped = hd convexHull" "set popped \<subseteq> set convexHull"
proof -
  from whileLoop_take [of convexHull coord] obtain k
    where k: "whileLoop convexHull coord = Inr (take k convexHull)" "k \<le> length convexHull" "0 < k"
    using assms by blast
  show thesis
  proof (rule that [of "take k convexHull"])
    show "whileLoop convexHull coord = Inr (take k convexHull)" by (rule k)
    show "take k convexHull \<noteq> []" using k assms by simp
    show "hd (take k convexHull) = hd convexHull" using k by simp
    show "set (take k convexHull) \<subseteq> set convexHull" by (rule set_take_subset)
  qed
qed

lemma forLoop_result:
  "convexHull \<noteq> [] \<Longrightarrow>
   \<exists>hull. forLoop convexHull coords = Inr hull \<and> hull \<noteq> [] \<and> hd hull = hd convexHull
      \<and> set hull \<subseteq> set convexHull \<union> set coords"
proof (induction coords arbitrary: convexHull)
  case Nil
  then show ?case by simp
next
  case (Cons coord rest)
  have top: "at_index convexHull (int (length convexHull) - 1) = Some (last convexHull)"
    using Cons.prems by (rule at_index_last)
  show ?case
  proof (cases "same coord (last convexHull)")
    case True
    then have "forLoop convexHull (coord # rest) = forLoop convexHull rest"
      using top by simp
    with Cons.IH [OF Cons.prems] show ?thesis by auto
  next
    case False
    from Cons.prems obtain popped where popped: "whileLoop convexHull coord = Inr popped"
      "popped \<noteq> []" "hd popped = hd convexHull" "set popped \<subseteq> set convexHull"
      by (rule whileLoop_result)
    have step: "forLoop convexHull (coord # rest) = forLoop (popped @ [coord]) rest"
      using False top popped(1) by simp
    from Cons.IH [of "popped @ [coord]"] obtain hull
      where hull: "forLoop (popped @ [coord]) rest = Inr hull" "hull \<noteq> []"
        "hd hull = hd (popped @ [coord])" "set hull \<subseteq> set (popped @ [coord]) \<union> set rest"
      by auto
    have "hd hull = hd convexHull"
      using hull(3) popped(2,3) by simp
    moreover have "set hull \<subseteq> set convexHull \<union> set (coord # rest)"
      using hull(4) popped(4) by auto
    ultimately show ?thesis
      using step hull(1,2) by simp
  qed
qed

lemma foldl_lowerLeft:
  "foldl lowerLeft a cs \<in> set (a # cs)
   \<and> (\<forall>c \<in> set (a # cs). y (foldl lowerLeft a cs) < y c
          \<or> (y (foldl lowerLeft a cs) = y c \<and> x (foldl lowerLeft a cs) \<le> x c))"
proof (induction cs arbitrary: a)
  case Nil
  show ?case by simp
next
  case (Cons c cs)
  let ?b = "foldl lowerLeft (lowerLeft a c) cs"
  from Cons.IH [of "lowerLeft a c"]
  have mem: "?b \<in> set (lowerLeft a c # cs)"
    and low: "\<forall>d \<in> set (lowerLeft a c # cs). y ?b < y d \<or> (y ?b = y d \<and> x ?b \<le> x d)"
    by blast+
  have m: "lowerLeft a c = a \<or> lowerLeft a c = c"
    by (simp add: lowerLeft_def)
  from low have l: "y ?b < y (lowerLeft a c) \<or> (y ?b = y (lowerLeft a c) \<and> x ?b \<le> x (lowerLeft a c))"
    by simp
  have la: "y (lowerLeft a c) < y a \<or> (y (lowerLeft a c) = y a \<and> x (lowerLeft a c) \<le> x a)"
    by (auto simp add: lowerLeft_def)
  have lc: "y (lowerLeft a c) < y c \<or> (y (lowerLeft a c) = y c \<and> x (lowerLeft a c) \<le> x c)"
    by (auto simp add: lowerLeft_def)
  have "y ?b < y a \<or> (y ?b = y a \<and> x ?b \<le> x a)"
    using l la by linarith
  moreover have "y ?b < y c \<or> (y ?b = y c \<and> x ?b \<le> x c)"
    using l lc by linarith
  moreover have "?b \<in> set (a # c # cs)"
    using mem m by auto
  ultimately show ?case
    using low by simp
qed

lemma baseCoordOf_result:
  assumes "coords \<noteq> []"
  obtains baseCoord where "baseCoordOf coords = Inr baseCoord" "baseCoord \<in> set coords"
    "\<forall>c \<in> set coords. y baseCoord < y c \<or> (y baseCoord = y c \<and> x baseCoord \<le> x c)"
proof (cases coords)
  case Nil
  with assms show thesis by simp
next
  case (Cons a cs)
  show thesis
  proof (rule that [of "foldl lowerLeft a cs"])
    show "baseCoordOf coords = Inr (foldl lowerLeft a cs)"
      using Cons by (simp add: baseCoordOf_def reduce_def)
    show "foldl lowerLeft a cs \<in> set coords"
      using foldl_lowerLeft [of a cs] Cons by simp
    show "\<forall>c \<in> set coords. y (foldl lowerLeft a cs) < y c
            \<or> (y (foldl lowerLeft a cs) = y c \<and> x (foldl lowerLeft a cs) \<le> x c)"
      using foldl_lowerLeft [of a cs] Cons by simp
  qed
qed



section \<open>findConvexHull\<close>

lemma findConvexHull_forLoop:
  "coords \<noteq> [] \<Longrightarrow> baseCoordOf coords = Inr baseCoord \<Longrightarrow>
   findConvexHull coords = forLoop [baseCoord] (sortedCoordsOf baseCoord coords)"
  by (simp add: findConvexHull_def)

lemma findConvexHull_result:
  assumes "coords \<noteq> []"
  obtains baseCoord hull where "baseCoordOf coords = Inr baseCoord"
    "findConvexHull coords = Inr hull" "hull \<noteq> []" "hd hull = baseCoord"
    "set hull \<subseteq> set coords"
proof -
  from assms obtain baseCoord where base: "baseCoordOf coords = Inr baseCoord"
    "baseCoord \<in> set coords"
    by (rule baseCoordOf_result)
  from forLoop_result [of "[baseCoord]" "sortedCoordsOf baseCoord coords"]
  obtain hull where hull: "forLoop [baseCoord] (sortedCoordsOf baseCoord coords) = Inr hull"
    "hull \<noteq> []" "hd hull = baseCoord"
    "set hull \<subseteq> set [baseCoord] \<union> set (sortedCoordsOf baseCoord coords)"
    by auto
  have "set (sortedCoordsOf baseCoord coords) = set coords"
    by (simp add: sortedCoordsOf_def set_sort_cmp)
  with hull(4) base(2) have sub: "set hull \<subseteq> set coords"
    by auto
  have res: "findConvexHull coords = Inr hull"
    using findConvexHull_forLoop [OF assms base(1)] hull(1) by simp
  show thesis
    by (rule that [OF base(1) res hull(2) hull(3) sub])
qed

text \<open>
  Claim C2. For every nonempty input list, \<^verbatim>\<open>findConvexHull\<close> returns a nonempty
  sequence whose first element is the pivot: an input point such that every input point
  has a larger y-coordinate, or the same y-coordinate and an x-coordinate that is not
  smaller.
\<close>

theorem findConvexHull_first_is_pivot:
  "coords \<noteq> [] \<Longrightarrow>
   \<exists>pivot rest. findConvexHull coords = Inr (pivot # rest)
     \<and> baseCoordOf coords = Inr pivot
     \<and> pivot \<in> set coords
     \<and> (\<forall>c \<in> set coords. y pivot < y c \<or> (y pivot = y c \<and> x pivot \<le> x c))"
proof -
  assume ne: "coords \<noteq> []"
  from ne obtain pivot where pivot: "baseCoordOf coords = Inr pivot" "pivot \<in> set coords"
    "\<forall>c \<in> set coords. y pivot < y c \<or> (y pivot = y c \<and> x pivot \<le> x c)"
    by (rule baseCoordOf_result)
  from ne obtain baseCoord hull where hull: "baseCoordOf coords = Inr baseCoord"
    "findConvexHull coords = Inr hull" "hull \<noteq> []" "hd hull = baseCoord"
    by (rule findConvexHull_result)
  from hull(1) pivot(1) have "baseCoord = pivot" by simp
  with hull(3,4) have "hull = pivot # tl hull"
    by (cases hull) simp_all
  with hull(2) have "findConvexHull coords = Inr (pivot # tl hull)" by simp
  with pivot show ?thesis by blast
qed

theorem findConvexHull_first_is_pivot_witness:
  "[pt 2 3, pt 4 1, pt 1 1, pt 0 5] \<noteq> []
   \<and> (\<exists>rest. findConvexHull [pt 2 3, pt 4 1, pt 1 1, pt 0 5] = Inr (pt 1 1 # rest))"
proof -
  have ne: "[pt 2 3, pt 4 1, pt 1 1, pt 0 5] \<noteq> []" by simp
  have "baseCoordOf [pt 2 3, pt 4 1, pt 1 1, pt 0 5] = Inr (pt 1 1)"
    by (simp add: baseCoordOf_def reduce_def lowerLeft_def)
  with findConvexHull_first_is_pivot [OF ne] show ?thesis by auto
qed

text \<open>
  Claim C6. For every input list, every element of the sequence \<^verbatim>\<open>findConvexHull\<close>
  returns is an element of the input list: the output holds no fabricated point.
\<close>

theorem findConvexHull_members:
  "\<exists>hull. findConvexHull coords = Inr hull \<and> (\<forall>p \<in> set hull. p \<in> set coords)"
proof (cases "coords = []")
  case True
  then show ?thesis by (simp add: findConvexHull_def)
next
  case False
  then obtain baseCoord hull where "findConvexHull coords = Inr hull" "set hull \<subseteq> set coords"
    by (rule findConvexHull_result)
  then show ?thesis by blast
qed

theorem findConvexHull_members_witness:
  "findConvexHull [pt 3 3, pt 1 2, pt 2 2, pt 2 1] = Inr [pt 2 1, pt 3 3, pt 1 2]
   \<and> pt 2 1 \<in> set [pt 3 3, pt 1 2, pt 2 2, pt 2 1]
   \<and> pt 3 3 \<in> set [pt 3 3, pt 1 2, pt 2 2, pt 2 1]
   \<and> pt 1 2 \<in> set [pt 3 3, pt 1 2, pt 2 2, pt 2 1]"
proof -
  have "findConvexHull [pt 3 3, pt 1 2, pt 2 2, pt 2 1] = Inr [pt 2 1, pt 3 3, pt 1 2]"
    by code_simp
  with findConvexHull_members [of "[pt 3 3, pt 1 2, pt 2 2, pt 2 1]"] show ?thesis
    by auto
qed

text \<open>
  Claim C7. \<^verbatim>\<open>findConvexHull\<close> is total: on every input list it returns a sequence
  and raises no error (an array read outside the bounds, which would make the program
  raise a \<^verbatim>\<open>TypeError\<close>, is the only error of the model), its \<^verbatim>\<open>while\<close> loop returns
  from every stack, and the result is empty exactly when the input is empty; in
  particular \<^verbatim>\<open>findConvexHull([]) == []\<close>.
\<close>

theorem findConvexHull_total:
  "(\<exists>hull. findConvexHull coords = Inr hull \<and> (hull = [] \<longleftrightarrow> coords = []))
   \<and> findConvexHull [] = Inr []
   \<and> (\<exists>popped. whileLoop convexHull coord = Inr popped)"
proof -
  have empty: "findConvexHull [] = Inr []"
    by (simp add: findConvexHull_def)
  have "\<exists>hull. findConvexHull coords = Inr hull \<and> (hull = [] \<longleftrightarrow> coords = [])"
  proof (cases "coords = []")
    case True
    with empty show ?thesis by simp
  next
    case False
    then obtain baseCoord hull where "findConvexHull coords = Inr hull" "hull \<noteq> []"
      by (rule findConvexHull_result)
    with False show ?thesis by simp
  qed
  moreover have "\<exists>popped. whileLoop convexHull coord = Inr popped"
    using whileLoop_take [of convexHull coord] by blast
  ultimately show ?thesis
    using empty by simp
qed

theorem findConvexHull_total_witness:
  "findConvexHull [pt 5 5] = Inr [pt 5 5] \<and> [pt 5 5] \<noteq> ([] :: Coord2D list)
   \<and> findConvexHull [] = Inr []
   \<and> whileLoop [pt 0 0, pt 1 0] (pt 2 0) = Inr [pt 0 0]"
proof -
  have "findConvexHull [pt 5 5] = Inr [pt 5 5]"
    by code_simp
  moreover have "whileLoop [pt 0 0, pt 1 0] (pt 2 0) = Inr [pt 0 0]"
    by code_simp
  ultimately show ?thesis
    using findConvexHull_total [of "[pt 5 5]" "[pt 0 0, pt 1 0]" "pt 2 0"] by simp
qed

text \<open>
  Claim C9. On the input \<open>[(0,0), (1,0), (2,0)]\<close>, in this order, \<^verbatim>\<open>findConvexHull\<close>
  returns exactly \<open>[(0,0), (2,0)]\<close>: the collinear midpoint \<open>(1,0)\<close> is pruned.
\<close>

theorem findConvexHull_collinear_triple:
  "findConvexHull [pt 0 0, pt 1 0, pt 2 0] = Inr [pt 0 0, pt 2 0]"
  by code_simp

text \<open>
  Claim C1 says that every returned point is a vertex of the convex hull of the input,
  and that no three consecutive returned points, the wrap-around edge included, are
  collinear. The code breaks it: two input points at the same angle from the pivot are
  processed in their input order, and when the farther one comes first on the last ray of
  the sweep the nearer one is pushed and never popped. On the input
  \<open>[(0,0), (1,0), (0,2), (0,1)]\<close> the result is the whole input, although \<open>(0,1)\<close> lies
  strictly between the returned points \<open>(0,2)\<close> and \<open>(0,0)\<close>, its two neighbours across
  the wrap-around edge.
\<close>

theorem findConvexHull_keeps_edge_point:
  "findConvexHull [pt 0 0, pt 1 0, pt 0 2, pt 0 1] = Inr [pt 0 0, pt 1 0, pt 0 2, pt 0 1]
   \<and> spec_cross (pt 0 2) (pt 0 1) (pt 0 0) = 0
   \<and> spec_strictly_between (pt 0 2) (pt 0 0) (pt 0 1)"
proof -
  have "findConvexHull [pt 0 0, pt 1 0, pt 0 2, pt 0 1] = Inr [pt 0 0, pt 1 0, pt 0 2, pt 0 1]"
    by code_simp
  then show ?thesis
    by (simp add: spec_strictly_between_def spec_cross_def)
qed

text \<open>
  Claim C8 says that the set of returned points does not depend on the order of the
  input. The code breaks it, by the same defect: \<open>[(0,0), (1,0), (2,0)]\<close> and
  \<open>[(0,0), (2,0), (1,0)]\<close> hold the same points, the first gives \<open>[(0,0), (2,0)]\<close> and the
  second gives \<open>[(0,0), (2,0), (1,0)]\<close>.
\<close>

theorem findConvexHull_order_dependent:
  "mset [pt 0 0, pt 2 0, pt 1 0] = mset [pt 0 0, pt 1 0, pt 2 0]
   \<and> findConvexHull [pt 0 0, pt 1 0, pt 2 0] = Inr [pt 0 0, pt 2 0]
   \<and> findConvexHull [pt 0 0, pt 2 0, pt 1 0] = Inr [pt 0 0, pt 2 0, pt 1 0]
   \<and> set [pt 0 0, pt 2 0] \<noteq> set [pt 0 0, pt 2 0, pt 1 0]"
proof -
  have "findConvexHull [pt 0 0, pt 1 0, pt 2 0] = Inr [pt 0 0, pt 2 0]"
    by code_simp
  moreover have "findConvexHull [pt 0 0, pt 2 0, pt 1 0] = Inr [pt 0 0, pt 2 0, pt 1 0]"
    by code_simp
  moreover have "set [pt 0 0, pt 2 0] \<noteq> set [pt 0 0, pt 2 0, pt 1 0]"
  proof
    assume "set [pt 0 0, pt 2 0] = set [pt 0 0, pt 2 0, pt 1 0]"
    moreover have "pt 1 0 \<in> set [pt 0 0, pt 2 0, pt 1 0]" by simp
    ultimately have "pt 1 0 \<in> set [pt 0 0, pt 2 0]" by (simp only:)
    then show False by simp
  qed
  ultimately show ?thesis by simp
qed

section \<open>Double arithmetic and exact arithmetic\<close>

lemma roundToDouble_exact: "\<bar>v\<bar> \<le> 2 ^ 53 \<Longrightarrow> roundToDouble v = Finite v"
proof -
  assume "\<bar>v\<bar> \<le> 2 ^ 53"
  then have "- v \<le> 2 ^ 53" "v \<le> 2 ^ 53" by linarith+
  then show ?thesis
    by (simp add: roundToDouble_def roundMagnitude_def)
qed

lemma roundToDouble_minus: "roundToDouble (- v) = num_neg (roundToDouble v)"
proof -
  have zero: "roundMagnitude 0 = Some 0"
    by (simp add: roundMagnitude_def)
  consider "v < 0" | "v = 0" | "0 < v" by linarith
  then show ?thesis
  proof cases
    case 1
    then show ?thesis
      by (simp add: roundToDouble_def split: option.split)
  next
    case 2
    then show ?thesis
      by (simp add: roundToDouble_def zero)
  next
    case 3
    then show ?thesis
      by (simp add: roundToDouble_def split: option.split)
  qed
qed

lemma num_sub_swap: "num_sub a b = num_neg (num_sub b a)"
proof (cases a; cases b)
  fix p q
  assume "a = Finite p" "b = Finite q"
  then show ?thesis
    using roundToDouble_minus [of "q - p"] by simp
qed simp_all

lemma num_mul_commute: "num_mul a b = num_mul b a"
  by (cases a; cases b) (simp_all add: mult.commute)

lemma num_sign_neg: "num_sign (num_neg v) = num_neg (num_sign v)"
  by (cases v) (simp_all add: sgn_if)

lemma regionIdx_double_Finite: "regionIdx_double (Finite a) (Finite b) = regionIdx a b"
  by (simp add: regionIdx_double_def regionIdx_def)

lemma compareAngle_double_swap:
  "compareAngle_double base2 coord2 base1 coord1
     = num_neg (compareAngle_double base1 coord1 base2 coord2)"
proof -
  let ?x1 = "num_sub (Finite (x coord1)) (Finite (x base1))"
  let ?y1 = "num_sub (Finite (y coord1)) (Finite (y base1))"
  let ?x2 = "num_sub (Finite (x coord2)) (Finite (x base2))"
  let ?y2 = "num_sub (Finite (y coord2)) (Finite (y base2))"
  have cross: "num_sign (num_sub (num_mul ?y2 ?x1) (num_mul ?y1 ?x2))
                 = num_neg (num_sign (num_sub (num_mul ?y1 ?x2) (num_mul ?y2 ?x1)))"
    using num_sub_swap [of "num_mul ?y2 ?x1" "num_mul ?y1 ?x2"] by (simp add: num_sign_neg)
  show ?thesis
  proof (cases "regionIdx_double ?x1 ?y1 = regionIdx_double ?x2 ?y2")
    case True
    then show ?thesis
      using cross by (simp add: compareAngle_double_def Let_def)
  next
    case False
    then have "regionIdx_double ?x2 ?y2 \<noteq> regionIdx_double ?x1 ?y1" by simp
    with False show ?thesis
      using sgn_diff_flip [of "regionIdx_double ?x2 ?y2" "regionIdx_double ?x1 ?y1"]
      by (simp add: compareAngle_double_def Let_def)
  qed
qed

lemma diff_bound:
  fixes a b :: int
  shows "\<bar>a\<bar> \<le> 2 ^ 25 \<Longrightarrow> \<bar>b\<bar> \<le> 2 ^ 25 \<Longrightarrow> \<bar>a - b\<bar> \<le> 2 ^ 26"
  by simp

lemma prod_bound:
  fixes u v :: int
  assumes "\<bar>u\<bar> \<le> 2 ^ 26" "\<bar>v\<bar> \<le> 2 ^ 26"
  shows "\<bar>u * v\<bar> \<le> 2 ^ 52"
proof -
  have "\<bar>u\<bar> * \<bar>v\<bar> \<le> 2 ^ 26 * 2 ^ 26"
    using assms by (intro mult_mono) simp_all
  then show ?thesis by (simp add: abs_mult)
qed

lemma num_sub_exact:
  "\<bar>a - b\<bar> \<le> 2 ^ 53 \<Longrightarrow> num_sub (Finite a) (Finite b) = Finite (a - b)"
  by (simp add: roundToDouble_exact)

lemma num_mul_exact:
  "\<bar>a * b\<bar> \<le> 2 ^ 53 \<Longrightarrow> num_mul (Finite a) (Finite b) = Finite (a * b)"
  by (simp add: roundToDouble_exact)

lemma exactRange_diff:
  assumes "exactRange a" "exactRange b"
  shows "\<bar>x a - x b\<bar> \<le> 2 ^ 26" and "\<bar>y a - y b\<bar> \<le> 2 ^ 26"
proof -
  have "\<bar>x a\<bar> \<le> 2 ^ 25" "\<bar>x b\<bar> \<le> 2 ^ 25" "\<bar>y a\<bar> \<le> 2 ^ 25" "\<bar>y b\<bar> \<le> 2 ^ 25"
    using assms by (simp_all add: exactRange_def)
  then show "\<bar>x a - x b\<bar> \<le> 2 ^ 26" and "\<bar>y a - y b\<bar> \<le> 2 ^ 26"
    by (simp_all only: diff_bound)
qed

lemma coord_sub_exact:
  assumes "exactRange a" "exactRange b"
  shows "num_sub (Finite (x a)) (Finite (x b)) = Finite (x a - x b)"
    and "num_sub (Finite (y a)) (Finite (y b)) = Finite (y a - y b)"
proof -
  have "\<bar>x a - x b\<bar> \<le> 2 ^ 53" "\<bar>y a - y b\<bar> \<le> 2 ^ 53"
    using exactRange_diff [OF assms] by simp_all
  then show "num_sub (Finite (x a)) (Finite (x b)) = Finite (x a - x b)"
    and "num_sub (Finite (y a)) (Finite (y b)) = Finite (y a - y b)"
    by (simp_all only: num_sub_exact)
qed

lemma compareAngle_double_exact:
  assumes "exactRange base1" "exactRange coord1" "exactRange base2" "exactRange coord2"
  shows "compareAngle_double base1 coord1 base2 coord2
           = Finite (compareAngle base1 coord1 base2 coord2)"
proof -
  let ?x1 = "x coord1 - x base1" and ?y1 = "y coord1 - y base1"
  let ?x2 = "x coord2 - x base2" and ?y2 = "y coord2 - y base2"
  have b: "\<bar>?x1\<bar> \<le> 2 ^ 26" "\<bar>?y1\<bar> \<le> 2 ^ 26" "\<bar>?x2\<bar> \<le> 2 ^ 26" "\<bar>?y2\<bar> \<le> 2 ^ 26"
    using exactRange_diff [OF assms(2,1)] exactRange_diff [OF assms(4,3)] by simp_all
  have d: "num_sub (Finite (x coord1)) (Finite (x base1)) = Finite ?x1"
    "num_sub (Finite (y coord1)) (Finite (y base1)) = Finite ?y1"
    "num_sub (Finite (x coord2)) (Finite (x base2)) = Finite ?x2"
    "num_sub (Finite (y coord2)) (Finite (y base2)) = Finite ?y2"
    using coord_sub_exact [OF assms(2,1)] coord_sub_exact [OF assms(4,3)] by simp_all
  have p: "\<bar>?y1 * ?x2\<bar> \<le> 2 ^ 52" "\<bar>?y2 * ?x1\<bar> \<le> 2 ^ 52"
    using b by (simp_all only: prod_bound)
  then have p53: "\<bar>?y1 * ?x2\<bar> \<le> 2 ^ 53" "\<bar>?y2 * ?x1\<bar> \<le> 2 ^ 53"
    by simp_all
  then have m: "num_mul (Finite ?y1) (Finite ?x2) = Finite (?y1 * ?x2)"
    "num_mul (Finite ?y2) (Finite ?x1) = Finite (?y2 * ?x1)"
    by (simp_all only: num_mul_exact)
  have "\<bar>?y1 * ?x2 - ?y2 * ?x1\<bar> \<le> 2 ^ 53"
    using p by simp
  then have s: "num_sub (Finite (?y1 * ?x2)) (Finite (?y2 * ?x1)) = Finite (?y1 * ?x2 - ?y2 * ?x1)"
    by (rule num_sub_exact)
  show ?thesis
    unfolding compareAngle_double_def compareAngle_def Let_def d regionIdx_double_Finite m s
    by simp
qed

text \<open>
  The bound of \<open>exactRange\<close> cannot be doubled: with coordinates of absolute value at
  most \<open>2 ^ 26\<close> a product can exceed \<open>2 ^ 53\<close> and be rounded.
\<close>

lemma exactRange_bound_tight:
  "compareAngle_double (pt (- (2 ^ 26)) (- (2 ^ 26))) (pt (2 ^ 26) (2 ^ 26 - 1))
       (pt (- (2 ^ 26)) (- (2 ^ 26))) (pt (2 ^ 26 - 1) (2 ^ 26 - 2)) = Finite 0
   \<and> compareAngle (pt (- (2 ^ 26)) (- (2 ^ 26))) (pt (2 ^ 26) (2 ^ 26 - 1))
       (pt (- (2 ^ 26)) (- (2 ^ 26))) (pt (2 ^ 26 - 1) (2 ^ 26 - 2)) = 1"
proof -
  have "compareAngle_double (pt (- (2 ^ 26)) (- (2 ^ 26))) (pt (2 ^ 26) (2 ^ 26 - 1))
       (pt (- (2 ^ 26)) (- (2 ^ 26))) (pt (2 ^ 26 - 1) (2 ^ 26 - 2)) = Finite 0"
    by code_simp
  moreover have "compareAngle (pt (- (2 ^ 26)) (- (2 ^ 26))) (pt (2 ^ 26) (2 ^ 26 - 1))
       (pt (- (2 ^ 26)) (- (2 ^ 26))) (pt (2 ^ 26 - 1) (2 ^ 26 - 2)) = 1"
    by code_simp
  ultimately show ?thesis by simp
qed

lemma num_sub_self: "num_sub m m = Finite 0 \<or> num_sub m m = NaN"
  by (cases m) (simp_all add: roundToDouble_exact)

lemma compareAngle_double_self:
  "compareAngle_double b p b p = Finite 0 \<or> compareAngle_double b p b p = NaN"
proof -
  let ?m = "num_mul (num_sub (Finite (y p)) (Finite (y b))) (num_sub (Finite (x p)) (Finite (x b)))"
  have "compareAngle_double b p b p = num_sign (num_sub ?m ?m)"
    by (simp add: compareAngle_double_def Let_def)
  with num_sub_self [of ?m] show ?thesis by auto
qed

lemma num_strict_eq_iff: "num_strict_eq a b \<longleftrightarrow> a = b \<and> a \<noteq> NaN"
  by (cases a; cases b) simp_all










section \<open>The comparator and the scan in the arithmetic of the program\<close>

text \<open>
  Claim C4, amended. For points whose coordinates are integers of absolute value at most
  \<open>2 ^ 25\<close>: when the two difference vectors \<open>(x1, y1)\<close> and \<open>(x2, y2)\<close> have the same
  sign pair, they fall in the same region and \<^verbatim>\<open>compareAngle\<close> returns the sign of
  \<open>y1 * x2 - y2 * x1\<close>, which is the negation of the sign of the conventional cross
  product \<open>x1 * y2 - x2 * y1\<close>; and the result is \<open>-1\<close>, \<open>0\<close> or \<open>1\<close>.
\<close>

theorem compareAngle_double_same_region:
  "exactRange base1 \<Longrightarrow> exactRange coord1 \<Longrightarrow> exactRange base2 \<Longrightarrow> exactRange coord2 \<Longrightarrow>
   (sgn (x coord1 - x base1) = sgn (x coord2 - x base2)
      \<and> sgn (y coord1 - y base1) = sgn (y coord2 - y base2)
    \<longrightarrow> regionIdx_double (num_sub (Finite (x coord1)) (Finite (x base1)))
            (num_sub (Finite (y coord1)) (Finite (y base1)))
          = regionIdx_double (num_sub (Finite (x coord2)) (Finite (x base2)))
              (num_sub (Finite (y coord2)) (Finite (y base2)))
        \<and> compareAngle_double base1 coord1 base2 coord2
          = Finite (sgn ((y coord1 - y base1) * (x coord2 - x base2)
                         - (y coord2 - y base2) * (x coord1 - x base1)))
        \<and> compareAngle_double base1 coord1 base2 coord2
          = Finite (- sgn ((x coord1 - x base1) * (y coord2 - y base2)
                           - (x coord2 - x base2) * (y coord1 - y base1))))
   \<and> compareAngle_double base1 coord1 base2 coord2 \<in> {Finite (- 1), Finite 0, Finite 1}"
proof -
  assume r: "exactRange base1" "exactRange coord1" "exactRange base2" "exactRange coord2"
  have dbl: "compareAngle_double base1 coord1 base2 coord2
               = Finite (compareAngle base1 coord1 base2 coord2)"
    using r by (rule compareAngle_double_exact)
  have d: "num_sub (Finite (x coord1)) (Finite (x base1)) = Finite (x coord1 - x base1)"
    "num_sub (Finite (y coord1)) (Finite (y base1)) = Finite (y coord1 - y base1)"
    "num_sub (Finite (x coord2)) (Finite (x base2)) = Finite (x coord2 - x base2)"
    "num_sub (Finite (y coord2)) (Finite (y base2)) = Finite (y coord2 - y base2)"
    using coord_sub_exact [OF r(2,1)] coord_sub_exact [OF r(4,3)] by simp_all
  have neg: "sgn ((y coord1 - y base1) * (x coord2 - x base2)
                   - (y coord2 - y base2) * (x coord1 - x base1))
             = - sgn ((x coord1 - x base1) * (y coord2 - y base2)
                      - (x coord2 - x base2) * (y coord1 - y base1))"
    using sgn_diff_flip [of "(y coord1 - y base1) * (x coord2 - x base2)"
        "(y coord2 - y base2) * (x coord1 - x base1)"]
    by (simp add: mult.commute)
  have same_region: "compareAngle base1 coord1 base2 coord2
          = sgn ((y coord1 - y base1) * (x coord2 - x base2)
                 - (y coord2 - y base2) * (x coord1 - x base1))"
    if "regionIdx (x coord1 - x base1) (y coord1 - y base1)
          = regionIdx (x coord2 - x base2) (y coord2 - y base2)"
    using that by (simp add: compareAngle_alt)
  have "compareAngle base1 coord1 base2 coord2 \<in> {- 1, 0, 1}"
    by (rule compareAngle_values)
  then have vals: "compareAngle_double base1 coord1 base2 coord2 \<in> {Finite (- 1), Finite 0, Finite 1}"
    unfolding dbl by auto
  show ?thesis
    unfolding d regionIdx_double_Finite
    using neg same_region vals
    by (simp add: dbl regionIdx_eq_iff)
qed

theorem compareAngle_double_same_region_witness:
  "exactRange (pt 0 0) \<and> exactRange (pt 2 1) \<and> exactRange (pt 1 3)
   \<and> sgn (x (pt 2 1) - x (pt 0 0)) = sgn (x (pt 1 3) - x (pt 0 0))
   \<and> sgn (y (pt 2 1) - y (pt 0 0)) = sgn (y (pt 1 3) - y (pt 0 0))
   \<and> compareAngle_double (pt 0 0) (pt 2 1) (pt 0 0) (pt 1 3) = Finite (sgn (1 * 1 - 3 * 2))
   \<and> compareAngle_double (pt 0 0) (pt 2 1) (pt 0 0) (pt 1 3) = Finite (- 1)"
proof -
  have r: "exactRange (pt 0 0)" "exactRange (pt 2 1)" "exactRange (pt 1 3)"
    by (simp_all add: exactRange_def)
  from compareAngle_double_same_region [OF r(1) r(2) r(1) r(3)] r show ?thesis
    by simp
qed

text \<open>
  Claim C4 as stated, for every pair of rays, fails on larger coordinates: for the rays
  from \<open>(0,0)\<close> to \<open>(134217730, 134217729)\<close> and to \<open>(134217729, 134217728)\<close>, both in
  the region \<open>(1,1)\<close>, the product \<open>134217729 * 134217729\<close> is rounded to
  \<open>134217728 * 134217730\<close>, and \<^verbatim>\<open>compareAngle\<close> returns \<open>0\<close> where the sign of
  \<open>y1 * x2 - y2 * x1\<close> is \<open>1\<close>.
\<close>

theorem compareAngle_double_rounds_counterexample:
  "sgn (x (pt 134217730 134217729) - x (pt 0 0)) = sgn (x (pt 134217729 134217728) - x (pt 0 0))
   \<and> sgn (y (pt 134217730 134217729) - y (pt 0 0)) = sgn (y (pt 134217729 134217728) - y (pt 0 0))
   \<and> compareAngle_double (pt 0 0) (pt 134217730 134217729) (pt 0 0) (pt 134217729 134217728)
       = Finite 0
   \<and> sgn ((y (pt 134217730 134217729) - y (pt 0 0)) * (x (pt 134217729 134217728) - x (pt 0 0))
           - (y (pt 134217729 134217728) - y (pt 0 0)) * (x (pt 134217730 134217729) - x (pt 0 0)))
       = (1 :: int)"
proof -
  have "compareAngle_double (pt 0 0) (pt 134217730 134217729) (pt 0 0) (pt 134217729 134217728)
          = Finite 0"
    by code_simp
  then show ?thesis by simp
qed

text \<open>
  Claim C10, amended. The result of \<^verbatim>\<open>compareAngle(base1, p1, base2, p2)\<close> is equal
  (\<^verbatim>\<open>===\<close>) to the negation of \<^verbatim>\<open>compareAngle(base2, p2, base1, p1)\<close> exactly when it is
  not \<^verbatim>\<open>NaN\<close>, and \<^verbatim>\<open>compareAngle(b, p, b, p)\<close> is \<open>0\<close> or \<^verbatim>\<open>NaN\<close>. For points whose
  coordinates are integers of absolute value at most \<open>2 ^ 25\<close> the result is never
  \<^verbatim>\<open>NaN\<close>: there swapping the two rays negates the result, and a ray compared with
  itself gives \<open>0\<close>.
\<close>

theorem compareAngle_double_antisymmetric:
  "num_strict_eq (compareAngle_double base1 p1 base2 p2)
       (num_neg (compareAngle_double base2 p2 base1 p1))
     = (compareAngle_double base1 p1 base2 p2 \<noteq> NaN)
   \<and> (compareAngle_double b p b p = Finite 0 \<or> compareAngle_double b p b p = NaN)
   \<and> (exactRange base1 \<and> exactRange p1 \<and> exactRange base2 \<and> exactRange p2
        \<longrightarrow> compareAngle_double base1 p1 base2 p2 \<noteq> NaN
          \<and> compareAngle_double base1 p1 base2 p2
              = num_neg (compareAngle_double base2 p2 base1 p1))
   \<and> (exactRange b \<and> exactRange p \<longrightarrow> compareAngle_double b p b p = Finite 0)"
proof -
  have swap: "compareAngle_double base1 p1 base2 p2
                = num_neg (compareAngle_double base2 p2 base1 p1)"
    by (rule compareAngle_double_swap)
  have fin: "compareAngle_double base1 p1 base2 p2 \<noteq> NaN"
    if "exactRange base1" "exactRange p1" "exactRange base2" "exactRange p2"
    using compareAngle_double_exact [OF that] by simp
  have refl: "compareAngle_double b p b p = Finite 0" if "exactRange b" "exactRange p"
    using compareAngle_double_exact [OF that that] compareAngle_double_self [of b p] by auto
  show ?thesis
    using swap fin refl compareAngle_double_self [of b p]
    by (simp add: num_strict_eq_iff)
qed

theorem compareAngle_double_antisymmetric_witness:
  "exactRange (pt 0 0) \<and> exactRange (pt 2 1) \<and> exactRange (pt 1 3)
   \<and> compareAngle_double (pt 0 0) (pt 2 1) (pt 0 0) (pt 1 3) = Finite (- 1)
   \<and> compareAngle_double (pt 0 0) (pt 1 3) (pt 0 0) (pt 2 1) = Finite 1
   \<and> compareAngle_double (pt 0 0) (pt 2 1) (pt 0 0) (pt 2 1) = Finite 0"
proof -
  have r: "exactRange (pt 0 0)" "exactRange (pt 2 1)" "exactRange (pt 1 3)"
    by (simp_all add: exactRange_def)
  have v: "compareAngle_double (pt 0 0) (pt 1 3) (pt 0 0) (pt 2 1) = Finite 1"
    by code_simp
  from compareAngle_double_antisymmetric [where ?base1.0 = "pt 0 0" and ?p1.0 = "pt 2 1"
      and ?base2.0 = "pt 0 0" and ?p2.0 = "pt 1 3" and b = "pt 0 0" and p = "pt 2 1"] r v
  show ?thesis by simp
qed

text \<open>
  Claim C10 as stated, for all points, fails where the products overflow: with
  \<open>b = (0,0)\<close> and \<open>p = (2 ^ 600, 2 ^ 600)\<close> both products are infinite, their difference
  is \<^verbatim>\<open>NaN\<close>, and \<^verbatim>\<open>compareAngle(b, p, b, p)\<close> is \<^verbatim>\<open>NaN\<close>, which is neither \<open>0\<close> nor
  equal to its own negation.
\<close>

theorem compareAngle_double_overflow_counterexample:
  "compareAngle_double (pt 0 0) (pt (2 ^ 600) (2 ^ 600)) (pt 0 0) (pt (2 ^ 600) (2 ^ 600)) = NaN
   \<and> \<not> num_strict_eq
         (compareAngle_double (pt 0 0) (pt (2 ^ 600) (2 ^ 600)) (pt 0 0) (pt (2 ^ 600) (2 ^ 600)))
         (num_neg (compareAngle_double (pt 0 0) (pt (2 ^ 600) (2 ^ 600)) (pt 0 0) (pt (2 ^ 600) (2 ^ 600))))
   \<and> \<not> num_strict_eq
         (compareAngle_double (pt 0 0) (pt (2 ^ 600) (2 ^ 600)) (pt 0 0) (pt (2 ^ 600) (2 ^ 600)))
         (Finite 0)"
proof -
  have "compareAngle_double (pt 0 0) (pt (2 ^ 600) (2 ^ 600)) (pt 0 0) (pt (2 ^ 600) (2 ^ 600)) = NaN"
    by code_simp
  then show ?thesis by simp
qed




end
